theory Spec2Isabelle
  imports Main "HOL-Library.Word" "HOL-Library.AList"
begin

section \<open>The configuration-value resolver of common/config_values.go\<close>

subsection \<open>Data model\<close>

text \<open>
  A Go \<open>error\<close> value is modelled by its message. A \<open>Source\<close> is the struct of the
  code. A value of type \<open>interface{}\<close> is one of the shapes that the two type switches
  of the code tell apart (nested \<open>map[string]interface{}\<close>, \<open>string\<close>, \<open>Source\<close>) or
  one of the shapes that fall into their \<open>default\<close> branch: JSON null, booleans,
  numbers (a float64, kept as its 64 bits, never inspected), arrays, and the
  \<open>map[string]string\<close> that the SSM and Secrets Manager providers return.

  A Go map is an association list: the list order is the order in which one \<open>range\<close>
  statement visits the entries, which Go leaves unspecified, so a statement about every
  list is a statement about every iteration order. Writing \<open>dst[k] = v\<close> is
  \<open>AList.update k v dst\<close>. A well-formed Go map has no key twice (\<open>wf_map\<close>).
\<close>

datatype error = Error string

record Source =
  Type :: string
  Name :: string
  Identifier :: string

datatype val =
    VNil
  | VBool bool
  | VNumber "64 word"
  | VString string
  | VArray "val list"
  | VMap "(string \<times> val) list"
  | VSource Source
  | VStringMap "(string \<times> string) list"

type_synonym gomap = "(string \<times> val) list"

record ConfigValues =
  Sources :: "(string \<times> Source list) list"
  Static :: gomap
  MaxRetries :: int
  KeyPrefixes :: "(string \<times> string) list"
  ValuePrefixes :: "(string \<times> string) list"

fun wf_val :: "val \<Rightarrow> bool" where
  "wf_val (VMap m) = (distinct (map fst m) \<and> list_all (\<lambda>kv. wf_val (snd kv)) m)"
| "wf_val (VStringMap m) = distinct (map fst m)"
| "wf_val v = True"

definition wf_map :: "gomap \<Rightarrow> bool" where
  "wf_map m = wf_val (VMap m)"

subsection \<open>Go's strings package\<close>

definition HasPrefix :: "string \<Rightarrow> string \<Rightarrow> bool" where
  "HasPrefix s prefix = (length s \<ge> length prefix \<and> take (length prefix) s = prefix)"

definition HasSuffix :: "string \<Rightarrow> string \<Rightarrow> bool" where
  "HasSuffix s suffix =
     (length s \<ge> length suffix \<and> drop (length s - length suffix) s = suffix)"

text \<open>\<open>strings.Split\<close> for a separator of one byte, the only way the code calls it.\<close>

fun Split :: "string \<Rightarrow> char \<Rightarrow> string list" where
  "Split [] sep = [[]]"
| "Split (ch # s) sep =
     (if ch = sep then [] # Split s sep
      else (case Split s sep of
              [] \<Rightarrow> [[ch]]
            | part # parts \<Rightarrow> (ch # part) # parts))"

subsection \<open>NewConfigValues, Clear, IsRefreshable\<close>

definition NewConfigValues :: ConfigValues where
  "NewConfigValues =
     \<lparr>Sources = [],
      Static = [],
      MaxRetries = 5,
      KeyPrefixes =
        [(''KMS'', ''KMS_''),
         (''SSM'', ''SSM_''),
         (''SECRETS_MANAGER'', ''SECRETS_MANAGER_''),
         (''FILE'', ''FILE_'')],
      ValuePrefixes =
        [(''KMS'', ''kms://''),
         (''SSM'', ''ssm://''),
         (''SECRETS_MANAGER'', ''secrets-manager://''),
         (''FILE'', ''file://'')]\<rparr>"



subsection \<open>GenerateFromMap\<close>

text \<open>
  The loop over \<open>c.KeyPrefixes\<close> of the \<open>string\<close> case: it returns the destination map
  and the flag \<open>found\<close>. The first prefix (in iteration order) that the key starts with
  wins and ends the loop (\<open>break\<close>).
\<close>

fun KeyPrefixes_range ::
  "(string \<times> string) list \<Rightarrow> string \<Rightarrow> string \<Rightarrow> gomap \<Rightarrow> gomap \<times> bool" where
  "KeyPrefixes_range [] key value dst = (dst, False)"
| "KeyPrefixes_range ((secretType, prefix) # rest) key value dst =
     (if HasPrefix key prefix then
        (let key' = drop (length prefix) key;
             name = (if HasPrefix key' ''_'' then '''' else key')
         in (AList.update name
               (VSource \<lparr>Type = secretType, Name = name, Identifier = value\<rparr>) dst,
             True))
      else KeyPrefixes_range rest key value dst)"

text \<open>The loop over \<open>c.ValuePrefixes\<close>, run only when \<open>found\<close> is still false.\<close>

fun ValuePrefixes_range ::
  "(string \<times> string) list \<Rightarrow> string \<Rightarrow> string \<Rightarrow> gomap \<Rightarrow> gomap \<times> bool" where
  "ValuePrefixes_range [] key value dst = (dst, False)"
| "ValuePrefixes_range ((secretType, prefix) # rest) key value dst =
     (if HasPrefix value prefix then
        (let value' = drop (length prefix) value
         in (AList.update key
               (VSource \<lparr>Type = secretType, Name = key, Identifier = value'\<rparr>) dst,
             True))
      else ValuePrefixes_range rest key value dst)"

text \<open>The whole \<open>case string:\<close> branch of the type switch.\<close>

definition string_case :: "ConfigValues \<Rightarrow> string \<Rightarrow> string \<Rightarrow> gomap \<Rightarrow> gomap" where
  "string_case c key value dst =
     (case KeyPrefixes_range (KeyPrefixes c) key value dst of
        (dst1, found1) \<Rightarrow>
          (case (if \<not> found1 then ValuePrefixes_range (ValuePrefixes c) key value dst1
                 else (dst1, found1)) of
             (dst2, found2) \<Rightarrow>
               if \<not> found2 then AList.update key (VString value) dst2 else dst2))"

text \<open>
  The \<open>for key, value := range src\<close> loop, with the entries still to visit and the
  destination built so far. The recursive call on a nested map starts from an empty
  destination, as \<open>GenerateFromMap\<close> does.
\<close>

function GenerateFromMap_range :: "ConfigValues \<Rightarrow> gomap \<Rightarrow> gomap \<Rightarrow> error + gomap" where
  "GenerateFromMap_range c [] dst = Inr dst"
| "GenerateFromMap_range c ((key, value) # rest) dst =
     (case value of
        VMap m \<Rightarrow>
          (case GenerateFromMap_range c m [] of
             Inl err \<Rightarrow> Inl err
           | Inr v \<Rightarrow> GenerateFromMap_range c rest (AList.update key (VMap v) dst))
      | VString s \<Rightarrow> GenerateFromMap_range c rest (string_case c key s dst)
      | _ \<Rightarrow> GenerateFromMap_range c rest (AList.update key value dst))"
  by pat_completeness auto
termination
  by (relation "measure (\<lambda>(c, src, dst). size_list (size_prod (\<lambda>_. 0) size) src)") auto

definition GenerateFromMap :: "ConfigValues \<Rightarrow> gomap \<Rightarrow> error + gomap" where
  "GenerateFromMap c src = GenerateFromMap_range c src []"


subsection \<open>The outside world\<close>

text \<open>
  Everything the resolver reaches outside the program is a parameter of the model: the
  file system, the three AWS services, \<open>DecryptWithKMS\<close> (a function of package
  \<open>common\<close> whose body is not part of the sources at hand), \<open>time.Sleep\<close>, and the
  functions of \<open>encoding/json\<close> and \<open>encoding/base64\<close>. A call that touches the
  world takes the world \<open>'w\<close> and returns the new one together with an error or a
  result; the decoders are pure. \<open>'o\<close> is the type of the object behind the \<open>output\<close>
  pointer, which is assumed to be a different object from the receiver.
\<close>

record GetSecretValueOutput =
  SecretString :: "string option"
  SecretBinary :: string

record ('w, 'o) extern =
  ReadFile :: "string \<Rightarrow> 'w \<Rightarrow> (error + string) \<times> 'w"
  GetParameter :: "string \<Rightarrow> 'w \<Rightarrow> (error + string) \<times> 'w"
  GetParametersByPath :: "string \<Rightarrow> 'w \<Rightarrow> (error + (string \<times> string) list) \<times> 'w"
  GetSecretValue :: "string \<Rightarrow> 'w \<Rightarrow> (error + GetSecretValueOutput) \<times> 'w"
  DecryptWithKMS :: "string \<Rightarrow> 'w \<Rightarrow> (error + string) \<times> 'w"
  Sleep :: "64 word \<Rightarrow> 'w \<Rightarrow> 'w"
  Base64Decode :: "string \<Rightarrow> error + string"
  UnmarshalStringMap :: "string \<Rightarrow> error + (string \<times> string) list"
  UnmarshalMap :: "string \<Rightarrow> error + gomap"
  Marshal :: "gomap \<Rightarrow> error + string"
  Unmarshal :: "string \<Rightarrow> 'o \<Rightarrow> error option \<times> 'o"

text \<open>
  The clients of \<open>RefreshState\<close>: \<open>False\<close> is \<open>nil\<close>, \<open>True\<close> a client built
  from the session and the configuration (which never change and are left out).
\<close>

record RefreshState =
  STSClient :: bool
  SecretsManagerClient :: bool
  KMSClient :: bool
  SSMClient :: bool

subsection \<open>The provider adapters\<close>

text \<open>The loop of \<open>getParametersByPath\<close> over the returned parameters (name, value).\<close>

fun Parameters_range ::
  "(string \<times> string) list \<Rightarrow> (string \<times> string) list \<Rightarrow> (string \<times> string) list" where
  "Parameters_range [] result = result"
| "Parameters_range ((name, value) # rest) result =
     (let parts = Split name CHR ''/'';
          key = parts ! (length parts - 1)
      in Parameters_range rest (AList.update key value result))"

definition getParametersByPath ::
  "('w, 'o) extern \<Rightarrow> string \<Rightarrow> 'w \<Rightarrow> (error + (string \<times> string) list) \<times> 'w" where
  "getParametersByPath X path w =
     (case GetParametersByPath X path w of
        (Inl e, w') \<Rightarrow> (Inl e, w')
      | (Inr parameters, w') \<Rightarrow> (Inr (Parameters_range parameters []), w'))"

definition ssmGetParameter ::
  "('w, 'o) extern \<Rightarrow> string \<Rightarrow> 'w \<Rightarrow> (error + string) \<times> 'w" where
  "ssmGetParameter X name w =
     (case GetParameter X name w of
        (Inl e, w') \<Rightarrow> (Inl e, w')
      | (Inr v, w') \<Rightarrow> (Inr v, w'))"

definition secretsManagerGetSecretValue ::
  "('w, 'o) extern \<Rightarrow> string \<Rightarrow> string \<Rightarrow> 'w \<Rightarrow> (error + (string \<times> string) list) \<times> 'w" where
  "secretsManagerGetSecretValue X secretName prefix w =
     (case GetSecretValue X secretName w of
        (Inl e, w') \<Rightarrow> (Inl e, w')
      | (Inr result, w') \<Rightarrow>
          (case (case SecretString result of
                   Some s \<Rightarrow> Inr s
                 | None \<Rightarrow> Base64Decode X (SecretBinary result)) of
             Inl e \<Rightarrow> (Inl e, w')
           | Inr content \<Rightarrow>
               (case UnmarshalStringMap X content of
                  Inl e \<Rightarrow> (Inl e, w')
                | Inr res \<Rightarrow> (Inr res, w'))))"

subsection \<open>RefreshMap\<close>

text \<open>
  The \<open>case Source:\<close> branch of the type switch of \<open>RefreshMap\<close>, with its inner
  switch on \<open>source.Type\<close>: an error is what the branch returns from \<open>RefreshMap\<close> with,
  a map is the destination after the branch. A type that is none of the four writes
  nothing.
\<close>

definition Source_case ::
  "('w, 'o) extern \<Rightarrow> string \<Rightarrow> Source \<Rightarrow> gomap \<Rightarrow> RefreshState \<Rightarrow> 'w
     \<Rightarrow> (error + gomap) \<times> RefreshState \<times> 'w" where
  "Source_case X key source dst state w =
     (if Type source = ''FILE'' then
        (case ReadFile X (Identifier source) w of
           (Inl e, w') \<Rightarrow> (Inl e, state, w')
         | (Inr bytes, w') \<Rightarrow>
             (Inr (AList.update (Name source) (VString bytes) dst), state, w'))
      else if Type source = ''SSM'' then
        (let state1 = (if \<not> SSMClient state then state\<lparr>SSMClient := True\<rparr> else state)
         in if HasSuffix (Identifier source) ''/*'' then
              (case getParametersByPath X
                      (take (length (Identifier source) - 2) (Identifier source)) w of
                 (Inl e, w') \<Rightarrow> (Inl e, state1, w')
               | (Inr values, w') \<Rightarrow>
                   (Inr (AList.update key (VStringMap values) dst), state1, w'))
            else
              (case ssmGetParameter X (Identifier source) w of
                 (Inl e, w') \<Rightarrow> (Inl e, state1, w')
               | (Inr v, w') \<Rightarrow>
                   (Inr (AList.update (Name source) (VString v) dst), state1, w')))
      else if Type source = ''SECRETS_MANAGER'' then
        (let state1 = (if \<not> SecretsManagerClient state
                       then state\<lparr>SecretsManagerClient := True\<rparr> else state)
         in case secretsManagerGetSecretValue X (Identifier source) (Name source) w of
              (Inl e, w') \<Rightarrow> (Inl e, state1, w')
            | (Inr values, w') \<Rightarrow>
                (Inr (AList.update key (VStringMap values) dst), state1, w'))
      else if Type source = ''KMS'' then
        (let state1 = (if \<not> KMSClient state then state\<lparr>KMSClient := True\<rparr> else state)
         in case DecryptWithKMS X (Identifier source) w of
              (Inl e, w') \<Rightarrow> (Inl e, state1, w')
            | (Inr v, w') \<Rightarrow>
                (Inr (AList.update (Name source) (VString v) dst), state1, w'))
      else (Inr dst, state, w))"

function RefreshMap_range ::
  "('w, 'o) extern \<Rightarrow> gomap \<Rightarrow> gomap \<Rightarrow> RefreshState \<Rightarrow> 'w
     \<Rightarrow> (error + gomap) \<times> RefreshState \<times> 'w" where
  "RefreshMap_range X [] dst state w = (Inr dst, state, w)"
| "RefreshMap_range X ((key, value) # rest) dst state w =
     (case value of
        VMap m \<Rightarrow>
          (case RefreshMap_range X m [] state w of
             (Inl e, state', w') \<Rightarrow> (Inl e, state', w')
           | (Inr res, state', w') \<Rightarrow>
               RefreshMap_range X rest (AList.update key (VMap res) dst) state' w')
      | VSource source \<Rightarrow>
          (case Source_case X key source dst state w of
             (Inl e, state', w') \<Rightarrow> (Inl e, state', w')
           | (Inr dst', state', w') \<Rightarrow> RefreshMap_range X rest dst' state' w')
      | _ \<Rightarrow> RefreshMap_range X rest (AList.update key value dst) state w)"
  by pat_completeness auto
termination
  by (relation "measure (\<lambda>(X, src, dst, state, w). size_list (size_prod (\<lambda>_. 0) size) src)")
    auto

definition RefreshMap ::
  "('w, 'o) extern \<Rightarrow> gomap \<Rightarrow> RefreshState \<Rightarrow> 'w \<Rightarrow> (error + gomap) \<times> RefreshState \<times> 'w" where
  "RefreshMap X src state w = RefreshMap_range X src [] state w"

subsection \<open>Refresh and RefreshWithRetries\<close>








subsection \<open>SetFromJSON\<close>



subsection \<open>Notions used to state the properties\<close>

text \<open>
  The first entry of a prefix table, in iteration order, whose prefix the string
  starts with.
\<close>

definition first_match :: "(string \<times> string) list \<Rightarrow> string \<Rightarrow> (string \<times> string) option" where
  "first_match table s = find (\<lambda>tp. HasPrefix s (snd tp)) table"

text \<open>The placeholder name that a key yields once a key-prefix is taken off.\<close>

definition placeholder_name :: "string \<Rightarrow> string \<Rightarrow> string" where
  "placeholder_name prefix key =
     (if HasPrefix (drop (length prefix) key) ''_'' then '''' else drop (length prefix) key)"

text \<open>
  A key that starts with no key-prefix, a string that starts with no value-prefix, and a
  nested map in which every key and every string value is so.
\<close>

definition key_plain :: "ConfigValues \<Rightarrow> string \<Rightarrow> bool" where
  "key_plain c key = list_all (\<lambda>tp. \<not> HasPrefix key (snd tp)) (KeyPrefixes c)"

definition value_plain :: "ConfigValues \<Rightarrow> string \<Rightarrow> bool" where
  "value_plain c s = list_all (\<lambda>tp. \<not> HasPrefix s (snd tp)) (ValuePrefixes c)"

fun plain :: "ConfigValues \<Rightarrow> val \<Rightarrow> bool" where
  "plain c (VMap m) = list_all (\<lambda>kv. key_plain c (fst kv) \<and> plain c (snd kv)) m"
| "plain c (VString s) = value_plain c s"
| "plain c v = True"

text \<open>A nested map that holds no \<open>Source\<close> where \<open>RefreshMap\<close> looks for one.\<close>

fun source_free :: "val \<Rightarrow> bool" where
  "source_free (VMap m) = list_all (\<lambda>kv. source_free (snd kv)) m"
| "source_free (VSource s) = False"
| "source_free v = True"

text \<open>
  The key of the destination that the iteration of \<open>GenerateFromMap\<close> for one entry
  writes.
\<close>

definition written_key :: "ConfigValues \<Rightarrow> string \<times> val \<Rightarrow> string" where
  "written_key c kv =
     (case snd kv of
        VString s \<Rightarrow>
          (case first_match (KeyPrefixes c) (fst kv) of
             Some tp \<Rightarrow> placeholder_name (snd tp) (fst kv)
           | None \<Rightarrow> fst kv)
      | _ \<Rightarrow> fst kv)"

text \<open>
  What the iteration of \<open>GenerateFromMap\<close> for a string leaf is to write, told in the
  words of the specification: the placeholder of the key-prefix if the key has one,
  else the placeholder of the value-prefix if the value has one, else the literal.
\<close>

definition recorded :: "ConfigValues \<Rightarrow> string \<Rightarrow> string \<Rightarrow> val" where
  "recorded c key value =
     (case first_match (KeyPrefixes c) key of
        Some tp \<Rightarrow>
          VSource \<lparr>Type = fst tp, Name = placeholder_name (snd tp) key, Identifier = value\<rparr>
      | None \<Rightarrow>
          (case first_match (ValuePrefixes c) value of
             Some tp \<Rightarrow>
               VSource \<lparr>Type = fst tp, Name = key, Identifier = drop (length (snd tp)) value\<rparr>
           | None \<Rightarrow> VString value))"

text \<open>
  A prefix table is exclusive when no prefix of it starts with another one, so that a
  string starts with at most one of them.
\<close>

definition exclusive :: "(string \<times> string) list \<Rightarrow> bool" where
  "exclusive table =
     list_all (\<lambda>tp. list_all (\<lambda>tp'. tp = tp' \<or>
        (\<not> HasPrefix (snd tp) (snd tp') \<and> \<not> HasPrefix (snd tp') (snd tp))) table) table"

text \<open>Resolution of a configuration: \<open>GenerateFromMap\<close> followed by \<open>RefreshMap\<close>.\<close>

definition resolve ::
  "('w, 'o) extern \<Rightarrow> ConfigValues \<Rightarrow> gomap \<Rightarrow> RefreshState \<Rightarrow> 'w
     \<Rightarrow> (error + gomap) \<times> RefreshState \<times> 'w" where
  "resolve X c src state w =
     (case GenerateFromMap c src of
        Inl e \<Rightarrow> (Inl e, state, w)
      | Inr m \<Rightarrow> RefreshMap X m state w)"

text \<open>
  \<open>fetch_fails X src dst state w e\<close>: the walk of \<open>RefreshMap\<close> over the entries
  \<open>src\<close>, started with destination \<open>dst\<close>, clients \<open>state\<close> and world \<open>w\<close>,
  comes to a provider fetch that fails with \<open>e\<close>, after the entries before it have been
  resolved. The fetch is a file read, an SSM call, a Secrets Manager fetch (with the
  decoding of the secret) or a KMS decryption, at this level or in a nested map.
\<close>

inductive fetch_fails ::
  "('w, 'o) extern \<Rightarrow> gomap \<Rightarrow> gomap \<Rightarrow> RefreshState \<Rightarrow> 'w \<Rightarrow> error \<Rightarrow> bool"
  for X :: "('w, 'o) extern" where
  file_read:
    "Type s = ''FILE'' \<Longrightarrow> ReadFile X (Identifier s) w = (Inl e, w')
     \<Longrightarrow> fetch_fails X ((key, VSource s) # rest) dst state w e"
| ssm_path:
    "Type s = ''SSM'' \<Longrightarrow> HasSuffix (Identifier s) ''/*''
     \<Longrightarrow> GetParametersByPath X (take (length (Identifier s) - 2) (Identifier s)) w = (Inl e, w')
     \<Longrightarrow> fetch_fails X ((key, VSource s) # rest) dst state w e"
| ssm_parameter:
    "Type s = ''SSM'' \<Longrightarrow> \<not> HasSuffix (Identifier s) ''/*''
     \<Longrightarrow> GetParameter X (Identifier s) w = (Inl e, w')
     \<Longrightarrow> fetch_fails X ((key, VSource s) # rest) dst state w e"
| secret:
    "Type s = ''SECRETS_MANAGER''
     \<Longrightarrow> secretsManagerGetSecretValue X (Identifier s) (Name s) w = (Inl e, w')
     \<Longrightarrow> fetch_fails X ((key, VSource s) # rest) dst state w e"
| kms:
    "Type s = ''KMS'' \<Longrightarrow> DecryptWithKMS X (Identifier s) w = (Inl e, w')
     \<Longrightarrow> fetch_fails X ((key, VSource s) # rest) dst state w e"
| nested:
    "fetch_fails X m [] state w e
     \<Longrightarrow> fetch_fails X ((key, VMap m) # rest) dst state w e"
| after_map:
    "RefreshMap_range X m [] state w = (Inr res, state', w')
     \<Longrightarrow> fetch_fails X rest (AList.update key (VMap res) dst) state' w' e
     \<Longrightarrow> fetch_fails X ((key, VMap m) # rest) dst state w e"
| after_source:
    "Source_case X key s dst state w = (Inr dst', state', w')
     \<Longrightarrow> fetch_fails X rest dst' state' w' e
     \<Longrightarrow> fetch_fails X ((key, VSource s) # rest) dst state w e"
| after_other:
    "(case v of VMap m \<Rightarrow> False | VSource s \<Rightarrow> False | _ \<Rightarrow> True)
     \<Longrightarrow> fetch_fails X rest (AList.update key v dst) state w e
     \<Longrightarrow> fetch_fails X ((key, v) # rest) dst state w e"





subsection \<open>A small world to run the code in\<close>

text \<open>
  The world is a counter of the provider calls made so far. Reading a file fails until
  two calls have been made; the SSM path query returns two parameters; the other
  providers answer at once. The output object is the list of documents written to it.
\<close>

definition test_world :: "(nat, string list) extern" where
  "test_world =
     \<lparr>ReadFile = (\<lambda>path w. (if w < 2 then Inl (Error ''no such file'') else Inr ''data'', Suc w)),
      GetParameter = (\<lambda>name w. (Inr ''value'', Suc w)),
      GetParametersByPath =
        (\<lambda>path w. (if path = ''/app'' then Inr [(''/app/user'', ''u''), (''/app/db/pass'', ''p'')]
                    else Inl (Error ''no such path''), Suc w)),
      GetSecretValue = (\<lambda>name w. (Inr \<lparr>SecretString = Some ''{}'', SecretBinary = ''''\<rparr>, Suc w)),
      DecryptWithKMS = (\<lambda>blob w. (Inr ''plain'', Suc w)),
      Sleep = (\<lambda>d w. w),
      Base64Decode = (\<lambda>s. Inr s),
      UnmarshalStringMap = (\<lambda>s. Inr []),
      UnmarshalMap = (\<lambda>s. Inr [(''a'', VString s)]),
      Marshal = (\<lambda>m. Inr (concat (map fst m))),
      Unmarshal = (\<lambda>data out. (None, data # out))\<rparr>"



section \<open>Properties\<close>

subsection \<open>Auxiliary facts about the two walks\<close>

lemma update_fresh: "k \<notin> fst ` set al \<Longrightarrow> AList.update k v al = al @ [(k, v)]"
  by (induction al) auto

lemma KeyPrefixes_range_none:
  "list_all (\<lambda>tp. \<not> HasPrefix key (snd tp)) ps \<Longrightarrow> KeyPrefixes_range ps key value dst = (dst, False)"
  by (induction ps) auto

lemma ValuePrefixes_range_none:
  "list_all (\<lambda>tp. \<not> HasPrefix value (snd tp)) ps \<Longrightarrow> ValuePrefixes_range ps key value dst = (dst, False)"
  by (induction ps) auto

lemma string_case_plain:
  "key_plain c key \<Longrightarrow> value_plain c s \<Longrightarrow> string_case c key s dst = AList.update key (VString s) dst"
  by (simp add: string_case_def key_plain_def value_plain_def KeyPrefixes_range_none ValuePrefixes_range_none)

lemma GenerateFromMap_range_plain:
  "distinct (map fst src) \<Longrightarrow> fst ` set src \<inter> fst ` set dst = {} \<Longrightarrow>
   list_all (\<lambda>kv. wf_val (snd kv)) src \<Longrightarrow>
   list_all (\<lambda>kv. key_plain c (fst kv) \<and> plain c (snd kv)) src \<Longrightarrow>
   GenerateFromMap_range c src dst = Inr (dst @ src)"
proof (induction c src dst rule: GenerateFromMap_range.induct)
  case (1 c dst)
  then show ?case by simp
next
  case (2 c key "value" rest dst)
  have fresh: "key \<notin> fst ` set dst" using "2.prems"(2) by auto
  have rest: "distinct (map fst rest)" "list_all (\<lambda>kv. wf_val (snd kv)) rest"
    "list_all (\<lambda>kv. key_plain c (fst kv) \<and> plain c (snd kv)) rest"
    using "2.prems" by auto
  have disj: "fst ` set rest \<inter> fst ` set (dst @ [(key, v)]) = {}" for v
    using "2.prems"(1,2) by auto
  have upd: "AList.update key v dst = dst @ [(key, v)]" for v
    by (rule update_fresh[OF fresh])
  show ?case
  proof (cases "value")
    case (VMap m)
    have m: "GenerateFromMap_range c m [] = Inr m"
      using "2.IH" "2.prems" VMap by simp
    have "GenerateFromMap_range c rest (dst @ [(key, VMap m)]) = Inr ((dst @ [(key, VMap m)]) @ rest)"
      using "2.IH" VMap m rest disj[of "VMap m"] by (simp add: upd)
    then show ?thesis using VMap m by (simp add: upd)
  next
    case (VString s)
    have sc: "string_case c key s dst = dst @ [(key, VString s)]"
      using "2.prems"(4) VString by (simp add: string_case_plain upd)
    show ?thesis using "2.IH" rest disj[of "VString s"] VString sc by simp
  qed (use "2.IH" rest disj[of "value"] in \<open>simp_all add: upd\<close>)
qed

lemma RefreshMap_range_source_free:
  "distinct (map fst src) \<Longrightarrow> fst ` set src \<inter> fst ` set dst = {} \<Longrightarrow>
   list_all (\<lambda>kv. wf_val (snd kv)) src \<Longrightarrow>
   list_all (\<lambda>kv. source_free (snd kv)) src \<Longrightarrow>
   RefreshMap_range X src dst state w = (Inr (dst @ src), state, w)"
proof (induction X src dst state w rule: RefreshMap_range.induct)
  case (1 X dst state w)
  then show ?case by simp
next
  case (2 X key "value" rest dst state w)
  have fresh: "key \<notin> fst ` set dst" using "2.prems"(2) by auto
  have rest: "distinct (map fst rest)" "list_all (\<lambda>kv. wf_val (snd kv)) rest"
    "list_all (\<lambda>kv. source_free (snd kv)) rest"
    using "2.prems" by auto
  have disj: "fst ` set rest \<inter> fst ` set (dst @ [(key, v)]) = {}" for v
    using "2.prems"(1,2) by auto
  have upd: "AList.update key v dst = dst @ [(key, v)]" for v
    by (rule update_fresh[OF fresh])
  show ?case
  proof (cases "value")
    case (VMap m)
    have m: "RefreshMap_range X m [] state w = (Inr m, state, w)"
      using "2.IH" "2.prems" VMap by simp
    have "RefreshMap_range X rest (dst @ [(key, VMap m)]) state w
            = (Inr ((dst @ [(key, VMap m)]) @ rest), state, w)"
      using "2.IH" VMap m rest disj[of "VMap m"] by (simp add: upd)
    then show ?thesis using VMap m by (simp add: upd)
  next
    case (VSource s)
    then show ?thesis using "2.prems"(4) by simp
  qed (use "2.IH" rest disj[of "value"] in \<open>simp_all add: upd\<close>)
qed

lemma GenerateFromMap_plain:
  "wf_map src \<Longrightarrow> plain c (VMap src) \<Longrightarrow> GenerateFromMap c src = Inr src"
  using GenerateFromMap_range_plain[of src "[]" c]
  by (simp add: wf_map_def GenerateFromMap_def)

lemma RefreshMap_source_free:
  "wf_map src \<Longrightarrow> source_free (VMap src) \<Longrightarrow> RefreshMap X src state w = (Inr src, state, w)"
  using RefreshMap_range_source_free[of src "[]" X state w]
  by (simp add: wf_map_def RefreshMap_def)

subsection \<open>GenerateFromMap on a map without provider prefixes\<close>

text \<open>
  Claim C3. For every configuration \<open>c\<close> (so for the one of \<open>NewConfigValues\<close>, with
  the key-prefixes \<open>KMS_\<close>, \<open>SSM_\<close>, \<open>SECRETS_MANAGER_\<close>, \<open>FILE_\<close> and the
  value-prefixes \<open>kms://\<close>, \<open>ssm://\<close>, \<open>secrets-manager://\<close>, \<open>file://\<close>) and
  every nested string-keyed map in which no key starts with a key-prefix and no string
  value starts with a value-prefix, \<open>GenerateFromMap\<close> returns a map equal to its input
  and a nil error. The map is a Go map: no key occurs twice in it or in a map nested
  in it.
\<close>

theorem GenerateFromMap_identity:
  "wf_map src \<Longrightarrow> plain c (VMap src) \<Longrightarrow> GenerateFromMap c src = Inr src"
  using GenerateFromMap_range_plain[of src "[]" c]
  by (simp add: wf_map_def GenerateFromMap_def)

theorem GenerateFromMap_identity_witness:
  "wf_map [(''region'', VString ''eu-west-1''), (''db'', VMap [(''port'', VNumber 5432)])]
   \<and> plain NewConfigValues
       (VMap [(''region'', VString ''eu-west-1''), (''db'', VMap [(''port'', VNumber 5432)])])
   \<and> GenerateFromMap NewConfigValues
       [(''region'', VString ''eu-west-1''), (''db'', VMap [(''port'', VNumber 5432)])]
     = Inr [(''region'', VString ''eu-west-1''), (''db'', VMap [(''port'', VNumber 5432)])]"
proof -
  have h1: "wf_map [(''region'', VString ''eu-west-1''), (''db'', VMap [(''port'', VNumber 5432)])]"
    by code_simp
  have h2: "plain NewConfigValues
       (VMap [(''region'', VString ''eu-west-1''), (''db'', VMap [(''port'', VNumber 5432)])])"
    by code_simp
  show ?thesis using h1 h2 GenerateFromMap_identity[OF h1 h2] by simp
qed

subsection \<open>Resolving twice\<close>

text \<open>
  Claim C8. For every configuration map without provider placeholders (no key-prefix,
  no value-prefix, no \<open>Source\<close>), resolving it (\<open>GenerateFromMap\<close> followed by
  \<open>RefreshMap\<close>) succeeds with a map \<open>r\<close>, and resolving \<open>r\<close> again returns
  exactly \<open>r\<close>: the second resolution changes nothing.
\<close>

theorem resolve_idempotent:
  assumes "wf_map src" and "plain c (VMap src)" and "source_free (VMap src)"
  shows "\<exists>r state' w'. resolve X c src state w = (Inr r, state', w')
           \<and> resolve X c r state' w' = (Inr r, state', w')"
proof -
  have "resolve X c src state w = (Inr src, state, w)"
    using assms by (simp add: resolve_def GenerateFromMap_plain RefreshMap_source_free)
  then show ?thesis by simp
qed

theorem resolve_idempotent_witness:
  "wf_map [(''region'', VString ''eu-west-1''), (''tags'', VArray [VString ''kms://x''])]
   \<and> plain NewConfigValues
        (VMap [(''region'', VString ''eu-west-1''), (''tags'', VArray [VString ''kms://x''])])
   \<and> source_free (VMap [(''region'', VString ''eu-west-1''), (''tags'', VArray [VString ''kms://x''])])
   \<and> (\<exists>r state' w'.
        resolve test_world NewConfigValues
          [(''region'', VString ''eu-west-1''), (''tags'', VArray [VString ''kms://x''])]
          \<lparr>STSClient = False, SecretsManagerClient = False, KMSClient = False, SSMClient = False\<rparr> 0
          = (Inr r, state', w')
        \<and> resolve test_world NewConfigValues r state' w' = (Inr r, state', w'))"
proof -
  have h1: "wf_map [(''region'', VString ''eu-west-1''), (''tags'', VArray [VString ''kms://x''])]"
    by code_simp
  have h2: "plain NewConfigValues
        (VMap [(''region'', VString ''eu-west-1''), (''tags'', VArray [VString ''kms://x''])])"
    by code_simp
  have h3: "source_free (VMap [(''region'', VString ''eu-west-1''), (''tags'', VArray [VString ''kms://x''])])"
    by code_simp
  show ?thesis
    using h1 h2 h3
      resolve_idempotent[OF h1 h2 h3, where X = test_world and w = 0
        and state = "\<lparr>STSClient = False, SecretsManagerClient = False, KMSClient = False, SSMClient = False\<rparr>"]
    by blast
qed

subsection \<open>The string leaves of GenerateFromMap\<close>

lemma KeyPrefixes_range_first_match:
  "KeyPrefixes_range table key value dst =
     (case first_match table key of
        Some tp \<Rightarrow>
          (AList.update (placeholder_name (snd tp) key)
             (VSource \<lparr>Type = fst tp, Name = placeholder_name (snd tp) key,
                       Identifier = value\<rparr>) dst, True)
      | None \<Rightarrow> (dst, False))"
  by (induction table) (auto simp: first_match_def placeholder_name_def Let_def)

lemma ValuePrefixes_range_first_match:
  "ValuePrefixes_range table key value dst =
     (case first_match table value of
        Some tp \<Rightarrow>
          (AList.update key
             (VSource \<lparr>Type = fst tp, Name = key,
                       Identifier = drop (length (snd tp)) value\<rparr>) dst, True)
      | None \<Rightarrow> (dst, False))"
  by (induction table) (auto simp: first_match_def Let_def)

lemma first_match_HasPrefix:
  "first_match table s = Some tp \<Longrightarrow> tp \<in> set table \<and> HasPrefix s (snd tp)"
  by (auto simp: first_match_def find_Some_iff)

lemma string_case_recorded:
  "string_case c key value dst
     = AList.update (written_key c (key, VString value)) (recorded c key value) dst"
  by (simp add: string_case_def KeyPrefixes_range_first_match ValuePrefixes_range_first_match
      written_key_def recorded_def split: option.splits)

lemma GenerateFromMap_range_total: "\<exists>out. GenerateFromMap_range c src dst = Inr out"
proof (induction c src dst rule: GenerateFromMap_range.induct)
  case (1 c dst)
  show ?case by simp
next
  case (2 c key "value" rest dst)
  show ?case
  proof (cases "value")
    case (VMap m)
    then obtain v where "GenerateFromMap_range c m [] = Inr v"
      using "2.IH" by blast
    then show ?thesis using VMap "2.IH" by simp
  qed (use "2.IH" in simp_all)
qed

lemma GenerateFromMap_range_append:
  "GenerateFromMap_range c (xs @ ys) dst =
     (case GenerateFromMap_range c xs dst of
        Inl e \<Rightarrow> Inl e
      | Inr d \<Rightarrow> GenerateFromMap_range c ys d)"
proof (induction c xs dst rule: GenerateFromMap_range.induct)
  case (1 c dst)
  show ?case by simp
next
  case (2 c key "value" rest dst)
  show ?case
  proof (cases "value")
    case (VMap m)
    obtain v where v: "GenerateFromMap_range c m [] = Inr v"
      using GenerateFromMap_range_total by blast
    show ?thesis using VMap v "2.IH" by simp
  qed (use "2.IH" in simp_all)
qed

lemma GenerateFromMap_range_Cons:
  "\<exists>d x. GenerateFromMap_range c (kv # rest) dst = GenerateFromMap_range c rest d
          \<and> map_of d = (map_of dst)(written_key c kv \<mapsto> x)"
proof -
  obtain key v where kv: "kv = (key, v)" by (cases kv)
  show ?thesis
  proof (cases v)
    case (VMap m)
    obtain r where "GenerateFromMap_range c m [] = Inr r"
      using GenerateFromMap_range_total by blast
    then show ?thesis
      unfolding kv VMap
      by (intro exI[of _ "AList.update key (VMap r) dst"] exI[of _ "VMap r"])
        (simp add: update_conv' written_key_def)
  next
    case (VString s)
    show ?thesis
      unfolding kv VString
      by (intro exI[of _ "string_case c key s dst"] exI[of _ "recorded c key s"])
        (simp add: string_case_recorded update_conv')
  qed (unfold kv, (intro exI[of _ "AList.update key v dst"] exI[of _ v],
        simp add: update_conv' written_key_def)+)
qed

lemma GenerateFromMap_range_frame:
  "GenerateFromMap_range c src dst = Inr out \<Longrightarrow> k \<notin> written_key c ` set src
   \<Longrightarrow> map_of out k = map_of dst k"
proof (induction src arbitrary: dst)
  case Nil
  then show ?case by simp
next
  case (Cons kv rest)
  obtain d x where d: "GenerateFromMap_range c (kv # rest) dst = GenerateFromMap_range c rest d"
    "map_of d = (map_of dst)(written_key c kv \<mapsto> x)"
    using GenerateFromMap_range_Cons by blast
  have "map_of out k = map_of d k"
    using Cons.IH[of d] Cons.prems d(1) by simp
  then show ?case using d(2) Cons.prems(2) by simp
qed

text \<open>
  Go visits the entries of a prefix table in an order that it does not specify. The
  default tables are exclusive, so the first match does not depend on that order.
\<close>

lemma HasPrefix_comparable:
  assumes "HasPrefix s p" and "HasPrefix s p'"
  shows "HasPrefix p p' \<or> HasPrefix p' p"
proof (cases "length p' \<le> length p")
  case True
  have "take (length p') p = take (length p') (take (length p) s)"
    using assms(1) by (simp add: HasPrefix_def)
  also have "\<dots> = take (length p') s"
    using True by (simp add: min_def)
  finally show ?thesis using assms(2) True by (simp add: HasPrefix_def)
next
  case False
  have "take (length p) p' = take (length p) (take (length p') s)"
    using assms(2) by (simp add: HasPrefix_def)
  also have "\<dots> = take (length p) s"
    using False by (simp add: min_def)
  finally show ?thesis using assms(1) False by (simp add: HasPrefix_def)
qed

lemma exclusive_unique:
  assumes "exclusive table" and "tp \<in> set table" and "tp' \<in> set table"
    and "HasPrefix s (snd tp)" and "HasPrefix s (snd tp')"
  shows "tp = tp'"
proof -
  have "tp = tp' \<or> (\<not> HasPrefix (snd tp) (snd tp') \<and> \<not> HasPrefix (snd tp') (snd tp))"
    using assms(1,2,3) unfolding exclusive_def list_all_iff by blast
  then show ?thesis
    using HasPrefix_comparable[OF assms(4,5)] by blast
qed

lemma default_tables_exclusive:
  "exclusive (KeyPrefixes NewConfigValues)" "exclusive (ValuePrefixes NewConfigValues)"
  by code_simp+

lemma first_match_exclusive:
  assumes "set table = set table'" and "exclusive table"
  shows "first_match table s = first_match table' s"
proof (cases "first_match table s")
  case None
  then have "\<forall>tp \<in> set table'. \<not> HasPrefix s (snd tp)"
    using assms(1) by (auto simp: first_match_def find_None_iff)
  then have "first_match table' s = None"
    unfolding first_match_def find_None_iff by blast
  then show ?thesis using None by simp
next
  case (Some tp)
  then have tp: "tp \<in> set table" "HasPrefix s (snd tp)"
    using first_match_HasPrefix by blast+
  then have "first_match table' s \<noteq> None"
    unfolding first_match_def find_None_iff using assms(1) by blast
  then obtain tp' where tp': "first_match table' s = Some tp'"
    by blast
  then have "tp' \<in> set table" "HasPrefix s (snd tp')"
    using first_match_HasPrefix assms(1) by blast+
  then have "tp = tp'" using tp exclusive_unique[OF assms(2)] by blast
  then show ?thesis using Some tp' by simp
qed

lemma default_key_prefixes_any_order:
  "set table = set (KeyPrefixes NewConfigValues)
   \<Longrightarrow> first_match table s = first_match (KeyPrefixes NewConfigValues) s"
  using first_match_exclusive[of "KeyPrefixes NewConfigValues" table s] default_tables_exclusive(1)
  by simp

lemma default_value_prefixes_any_order:
  "set table = set (ValuePrefixes NewConfigValues)
   \<Longrightarrow> first_match table s = first_match (ValuePrefixes NewConfigValues) s"
  using first_match_exclusive[of "ValuePrefixes NewConfigValues" table s] default_tables_exclusive(2)
  by simp

text \<open>
  Claim C4. For every string leaf whose key starts with a key-prefix and whose value
  starts with a value-prefix, the iteration of \<open>GenerateFromMap\<close> for the leaf records
  the \<open>Source\<close> of the key-prefix: its type is the provider of the key-prefix, its name
  the key without the prefix, its identifier the whole value, value-prefix included.
  The table of value-prefixes is not looked at: any other table gives the same result.
\<close>

theorem key_prefix_precedence:
  assumes "first_match (KeyPrefixes c) key = Some (secretType, prefix)"
    and "first_match (ValuePrefixes c) value = Some (valueType, valuePrefix)"
  shows "GenerateFromMap_range c ((key, VString value) # rest) dst
           = GenerateFromMap_range c rest
               (AList.update (placeholder_name prefix key)
                  (VSource \<lparr>Type = secretType, Name = placeholder_name prefix key,
                            Identifier = value\<rparr>) dst)
         \<and> (\<forall>table. string_case (c\<lparr>ValuePrefixes := table\<rparr>) key value dst
                      = string_case c key value dst)"
  using assms(1)
  by (simp add: string_case_def KeyPrefixes_range_first_match)

theorem key_prefix_precedence_witness:
  "first_match (KeyPrefixes NewConfigValues) ''KMS_A'' = Some (''KMS'', ''KMS_'')
   \<and> first_match (ValuePrefixes NewConfigValues) ''ssm://x'' = Some (''SSM'', ''ssm://'')
   \<and> GenerateFromMap NewConfigValues [(''KMS_A'', VString ''ssm://x'')]
       = Inr [(''A'', VSource \<lparr>Type = ''KMS'', Name = ''A'', Identifier = ''ssm://x''\<rparr>)]"
proof -
  have h1: "first_match (KeyPrefixes NewConfigValues) ''KMS_A'' = Some (''KMS'', ''KMS_'')"
    by code_simp
  have h2: "first_match (ValuePrefixes NewConfigValues) ''ssm://x'' = Some (''SSM'', ''ssm://'')"
    by code_simp
  have n: "placeholder_name ''KMS_'' ''KMS_A'' = ''A''"
    by code_simp
  show ?thesis
    using h1 h2 key_prefix_precedence[OF h1 h2, of "[]" "[]"]
    by (simp add: GenerateFromMap_def n)
qed

text \<open>
  Claim C5, amended. For every string leaf \<open>(key, value)\<close> of the map given to
  \<open>GenerateFromMap\<close>, provided that no entry visited after it writes the same key of
  the output: if \<open>key\<close> starts with a key-prefix, the output maps \<open>name\<close> to
  \<open>Source{Type: provider, Name: name, Identifier: value}\<close>, where \<open>name\<close> is
  \<open>key\<close> without the prefix, or the empty string when the rest starts with \<open>_\<close>;
  otherwise, if \<open>value\<close> starts with a value-prefix, the output maps \<open>key\<close> to
  \<open>Source{Type: provider, Name: key, Identifier: value without the prefix}\<close>;
  otherwise the output maps \<open>key\<close> to the literal \<open>value\<close>. The call returns no
  error.
\<close>

theorem GenerateFromMap_leaf:
  assumes "written_key c (key, VString value) \<notin> written_key c ` set post"
  shows "\<exists>out. GenerateFromMap c (pre @ (key, VString value) # post) = Inr out
           \<and> (case first_match (KeyPrefixes c) key of
                Some tp \<Rightarrow>
                  map_of out (placeholder_name (snd tp) key)
                    = Some (VSource \<lparr>Type = fst tp, Name = placeholder_name (snd tp) key,
                                     Identifier = value\<rparr>)
              | None \<Rightarrow>
                  (case first_match (ValuePrefixes c) value of
                     Some tp \<Rightarrow>
                       map_of out key
                         = Some (VSource \<lparr>Type = fst tp, Name = key,
                                          Identifier = drop (length (snd tp)) value\<rparr>)
                   | None \<Rightarrow> map_of out key = Some (VString value)))"
proof -
  obtain d where d: "GenerateFromMap_range c pre [] = Inr d"
    using GenerateFromMap_range_total by blast
  obtain out where out:
    "GenerateFromMap_range c post (string_case c key value d) = Inr out"
    using GenerateFromMap_range_total by blast
  have run: "GenerateFromMap c (pre @ (key, VString value) # post) = Inr out"
    by (simp add: GenerateFromMap_def GenerateFromMap_range_append d out)
  have "map_of out (written_key c (key, VString value))
          = map_of (string_case c key value d) (written_key c (key, VString value))"
    using out assms by (rule GenerateFromMap_range_frame)
  then have "map_of out (written_key c (key, VString value)) = Some (recorded c key value)"
    by (simp add: string_case_recorded update_conv')
  then show ?thesis
    using run by (auto simp: written_key_def recorded_def split: option.splits)
qed

theorem GenerateFromMap_leaf_witness:
  "written_key NewConfigValues (''B'', VString ''file://y'')
     \<notin> written_key NewConfigValues ` set [(''SSM__B'', VString ''file://z'')]
   \<and> GenerateFromMap NewConfigValues
         [(''KMS_A'', VString ''x''), (''B'', VString ''file://y''),
          (''SSM__B'', VString ''file://z'')]
       = Inr [(''A'', VSource \<lparr>Type = ''KMS'', Name = ''A'', Identifier = ''x''\<rparr>),
              (''B'', VSource \<lparr>Type = ''FILE'', Name = ''B'', Identifier = ''y''\<rparr>),
              ([], VSource \<lparr>Type = ''SSM'', Name = [], Identifier = ''file://z''\<rparr>)]
   \<and> map_of [(''A'', VSource \<lparr>Type = ''KMS'', Name = ''A'', Identifier = ''x''\<rparr>),
              (''B'', VSource \<lparr>Type = ''FILE'', Name = ''B'', Identifier = ''y''\<rparr>),
              ([], VSource \<lparr>Type = ''SSM'', Name = [], Identifier = ''file://z''\<rparr>)] ''B''
       = Some (VSource \<lparr>Type = ''FILE'', Name = ''B'', Identifier = ''y''\<rparr>)"
proof -
  have w1: "written_key NewConfigValues (''B'', VString ''file://y'') = ''B''"
    by code_simp
  have w2: "written_key NewConfigValues (''SSM__B'', VString ''file://z'') = []"
    by code_simp
  have h: "written_key NewConfigValues (''B'', VString ''file://y'')
     \<notin> written_key NewConfigValues ` set [(''SSM__B'', VString ''file://z'')]"
    by (simp add: w1 w2)
  have f1: "first_match (KeyPrefixes NewConfigValues) ''B'' = None"
    by code_simp
  have f2: "first_match (ValuePrefixes NewConfigValues) ''file://y'' = Some (''FILE'', ''file://'')"
    by code_simp
  have g: "GenerateFromMap NewConfigValues
         [(''KMS_A'', VString ''x''), (''B'', VString ''file://y''),
          (''SSM__B'', VString ''file://z'')]
       = Inr [(''A'', VSource \<lparr>Type = ''KMS'', Name = ''A'', Identifier = ''x''\<rparr>),
              (''B'', VSource \<lparr>Type = ''FILE'', Name = ''B'', Identifier = ''y''\<rparr>),
              ([], VSource \<lparr>Type = ''SSM'', Name = [], Identifier = ''file://z''\<rparr>)]"
    by code_simp
  show ?thesis
    using h g GenerateFromMap_leaf[OF h, of "[(''KMS_A'', VString ''x'')]"]
    by (simp add: f1 f2)
qed

text \<open>
  The claim C5 as stated fails when two leaves yield the same name: the keys \<open>KMS_A\<close>
  and \<open>SSM_A\<close> both write \<open>A\<close>, and the output keeps only the \<open>Source\<close> of the
  leaf visited last, in either order.
\<close>

theorem later_leaf_overwrites:
  "GenerateFromMap NewConfigValues [(''KMS_A'', VString ''x''), (''SSM_A'', VString ''y'')]
     = Inr [(''A'', VSource \<lparr>Type = ''SSM'', Name = ''A'', Identifier = ''y''\<rparr>)]
   \<and> GenerateFromMap NewConfigValues [(''SSM_A'', VString ''y''), (''KMS_A'', VString ''x'')]
     = Inr [(''A'', VSource \<lparr>Type = ''KMS'', Name = ''A'', Identifier = ''x''\<rparr>)]"
  by code_simp

subsection \<open>Provider errors during a refresh\<close>

lemma Source_case_file:
  "Type s = ''FILE'' \<Longrightarrow> ReadFile X (Identifier s) w = (Inl e, w')
   \<Longrightarrow> Source_case X key s dst state w = (Inl e, state, w')"
  by (simp add: Source_case_def)

lemma Source_case_ssm_path:
  "Type s = ''SSM'' \<Longrightarrow> HasSuffix (Identifier s) ''/*''
   \<Longrightarrow> GetParametersByPath X (take (length (Identifier s) - 2) (Identifier s)) w = (Inl e, w')
   \<Longrightarrow> \<exists>state'. Source_case X key s dst state w = (Inl e, state', w')"
  by (simp add: Source_case_def getParametersByPath_def Let_def)

lemma Source_case_ssm_parameter:
  "Type s = ''SSM'' \<Longrightarrow> \<not> HasSuffix (Identifier s) ''/*''
   \<Longrightarrow> GetParameter X (Identifier s) w = (Inl e, w')
   \<Longrightarrow> \<exists>state'. Source_case X key s dst state w = (Inl e, state', w')"
  by (simp add: Source_case_def ssmGetParameter_def Let_def)

lemma Source_case_secret:
  "Type s = ''SECRETS_MANAGER''
   \<Longrightarrow> secretsManagerGetSecretValue X (Identifier s) (Name s) w = (Inl e, w')
   \<Longrightarrow> \<exists>state'. Source_case X key s dst state w = (Inl e, state', w')"
  by (simp add: Source_case_def Let_def)

lemma Source_case_kms:
  "Type s = ''KMS'' \<Longrightarrow> DecryptWithKMS X (Identifier s) w = (Inl e, w')
   \<Longrightarrow> \<exists>state'. Source_case X key s dst state w = (Inl e, state', w')"
  by (simp add: Source_case_def Let_def)

lemma fetch_fails_RefreshMap_range:
  "fetch_fails X src dst state w e
   \<Longrightarrow> \<exists>state' w'. RefreshMap_range X src dst state w = (Inl e, state', w')"
proof (induction rule: fetch_fails.induct)
  case (file_read s w e w' key rest dst state)
  then show ?case using Source_case_file[of s X w e w' key dst state] by simp
next
  case (ssm_path s w e w' key rest dst state)
  then show ?case using Source_case_ssm_path[of s X w e w' key dst state] by auto
next
  case (ssm_parameter s w e w' key rest dst state)
  then show ?case using Source_case_ssm_parameter[of s X w e w' key dst state] by auto
next
  case (secret s w e w' key rest dst state)
  then show ?case using Source_case_secret[of s X w e w' key dst state] by auto
next
  case (kms s w e w' key rest dst state)
  then show ?case using Source_case_kms[of s X w e w' key dst state] by auto
next
  case (nested m state w e key rest dst)
  then show ?case by auto
next
  case (after_map m state w res state' w' rest key dst e)
  then show ?case by auto
next
  case (after_source key s dst state w dst' state' w' rest e)
  then show ?case by auto
next
  case (after_other v rest key dst state w e)
  then show ?case by (cases v) auto
qed

text \<open>
  Conversely, the walk returns an error only when a fetch fails, so that
  \<open>fetch_fails\<close> describes exactly the runs of \<open>RefreshMap\<close> that end in an error.
\<close>

lemma Source_case_Inl:
  assumes "Source_case X key s dst state w = (Inl e, state', w')"
  shows "fetch_fails X ((key, VSource s) # rest) dst state w e"
proof (cases "Type s = ''FILE''")
  case True
  then have "\<exists>w'. ReadFile X (Identifier s) w = (Inl e, w')"
    using assms by (auto simp: Source_case_def split: prod.splits sum.splits)
  then obtain w1 where "ReadFile X (Identifier s) w = (Inl e, w1)" ..
  with True show ?thesis by (rule fetch_fails.file_read)
next
  case no_file: False
  show ?thesis
  proof (cases "Type s = ''SSM''")
    case True
    show ?thesis
    proof (cases "HasSuffix (Identifier s) ''/*''")
      case suffix: True
      then have "\<exists>w'. GetParametersByPath X
                   (take (length (Identifier s) - 2) (Identifier s)) w = (Inl e, w')"
        using assms True
        by (auto simp: Source_case_def getParametersByPath_def Let_def
            split: prod.splits sum.splits)
      then obtain w1 where "GetParametersByPath X
                   (take (length (Identifier s) - 2) (Identifier s)) w = (Inl e, w1)" ..
      with True suffix show ?thesis by (rule fetch_fails.ssm_path)
    next
      case no_suffix: False
      then have "\<exists>w'. GetParameter X (Identifier s) w = (Inl e, w')"
        using assms True
        by (auto simp: Source_case_def ssmGetParameter_def Let_def
            split: prod.splits sum.splits)
      then obtain w1 where "GetParameter X (Identifier s) w = (Inl e, w1)" ..
      with True no_suffix show ?thesis by (rule fetch_fails.ssm_parameter)
    qed
  next
    case no_ssm: False
    show ?thesis
    proof (cases "Type s = ''SECRETS_MANAGER''")
      case True
      then have "\<exists>w'. secretsManagerGetSecretValue X (Identifier s) (Name s) w = (Inl e, w')"
        using assms no_file no_ssm
        by (auto simp: Source_case_def Let_def split: prod.splits sum.splits)
      then obtain w1 where
        "secretsManagerGetSecretValue X (Identifier s) (Name s) w = (Inl e, w1)" ..
      with True show ?thesis by (rule fetch_fails.secret)
    next
      case no_secret: False
      show ?thesis
      proof (cases "Type s = ''KMS''")
        case True
        then have "\<exists>w'. DecryptWithKMS X (Identifier s) w = (Inl e, w')"
          using assms no_file no_ssm no_secret
          by (auto simp: Source_case_def Let_def split: prod.splits sum.splits)
        then obtain w1 where "DecryptWithKMS X (Identifier s) w = (Inl e, w1)" ..
        with True show ?thesis by (rule fetch_fails.kms)
      next
        case False
        then show ?thesis
          using assms no_file no_ssm no_secret by (simp add: Source_case_def)
      qed
    qed
  qed
qed

lemma RefreshMap_range_Inl:
  "RefreshMap_range X src dst state w = (Inl e, state', w')
   \<Longrightarrow> fetch_fails X src dst state w e"
proof (induction X src dst state w arbitrary: state' w' rule: RefreshMap_range.induct)
  case (1 X dst state w)
  then show ?case by simp
next
  case (2 X key "value" rest dst state w)
  show ?case
  proof (cases "value")
    case (VMap m)
    obtain r st1 w1 where m: "RefreshMap_range X m [] state w = (r, st1, w1)"
      by (cases "RefreshMap_range X m [] state w") auto
    show ?thesis
    proof (cases r)
      case (Inl e')
      then have "e' = e" using "2.prems" VMap m by simp
      then have "RefreshMap_range X m [] state w = (Inl e, st1, w1)"
        using m Inl by simp
      then have "fetch_fails X m [] state w e"
        by (rule "2.IH"(6)[OF VMap])
      then show ?thesis unfolding VMap by (rule fetch_fails.nested)
    next
      case (Inr res)
      then have "RefreshMap_range X rest (AList.update key (VMap res) dst) st1 w1
                   = (Inl e, state', w')"
        using "2.prems" VMap m by simp
      then have "fetch_fails X rest (AList.update key (VMap res) dst) st1 w1 e"
        by (rule "2.IH"(7)[OF VMap m[symmetric] Inr refl])
      with m[unfolded Inr] show ?thesis
        unfolding VMap by (rule fetch_fails.after_map)
    qed
  next
    case (VSource s)
    obtain r st1 w1 where sc: "Source_case X key s dst state w = (r, st1, w1)"
      by (cases "Source_case X key s dst state w") auto
    show ?thesis
    proof (cases r)
      case (Inl e')
      then have "e' = e" using "2.prems" VSource sc by simp
      then show ?thesis
        unfolding VSource using sc Inl by (intro Source_case_Inl[of X key s dst state w e st1 w1]) simp
    next
      case (Inr dst')
      then have "RefreshMap_range X rest dst' st1 w1 = (Inl e, state', w')"
        using "2.prems" VSource sc by simp
      then have "fetch_fails X rest dst' st1 w1 e"
        by (rule "2.IH"(8)[OF VSource sc[symmetric] Inr refl])
      with sc[unfolded Inr] show ?thesis
        unfolding VSource by (rule fetch_fails.after_source)
    qed
  qed (use "2.IH" "2.prems" in \<open>auto intro!: fetch_fails.after_other\<close>)
qed

lemma fetch_fails_iff:
  "fetch_fails X src dst state w e
     \<longleftrightarrow> (\<exists>state' w'. RefreshMap_range X src dst state w = (Inl e, state', w'))"
  using fetch_fails_RefreshMap_range[of X src dst state w e] RefreshMap_range_Inl[of X src dst state w e]
  by blast



subsection \<open>SSM paths\<close>

lemma Split_nonempty: "Split s sep \<noteq> []"
  by (induction s) (auto split: list.splits)

lemma map_of_Parameters_range:
  "map_of (Parameters_range ps result)
     = map_of (rev (map (\<lambda>nv. (last (Split (fst nv) CHR ''/''), snd nv)) ps) @ result)"
proof (induction ps arbitrary: result)
  case Nil
  show ?case by simp
next
  case (Cons p ps)
  obtain name v where p: "p = (name, v)" by (cases p)
  have step: "Parameters_range ((name, v) # ps) result
                = Parameters_range ps (AList.update (last (Split name CHR ''/'')) v result)"
    using Split_nonempty[of name "CHR ''/''"] by (simp add: Let_def last_conv_nth)
  show ?case
    unfolding p step
    by (simp add: Cons.IH update_conv' map_add_def fun_eq_iff split: option.splits)
qed

lemma distinct_Parameters_range:
  "distinct (map fst result) \<Longrightarrow> distinct (map fst (Parameters_range ps result))"
  by (induction ps arbitrary: result) (auto simp: Let_def distinct_update)

text \<open>
  Claim C6. When \<open>RefreshMap\<close> comes to an SSM \<open>Source\<close> whose identifier is a path
  followed by \<open>/*\<close>, it queries that path and, if the query succeeds, binds to the
  key of the entry a map from the last \<open>/\<close>-separated segment of each returned
  parameter name to the value of that parameter (the later parameter where two names end
  in the same segment), then goes on with the other entries.
\<close>

theorem RefreshMap_ssm_path:
  assumes "Type s = ''SSM''"
    and "Identifier s = path @ ''/*''"
    and "GetParametersByPath X path w = (Inr parameters, w')"
  shows "\<exists>values.
           RefreshMap_range X ((key, VSource s) # rest) dst state w
             = RefreshMap_range X rest (AList.update key (VStringMap values) dst)
                 (state\<lparr>SSMClient := True\<rparr>) w'
           \<and> distinct (map fst values)
           \<and> map_of values
               = map_of (rev (map (\<lambda>nv. (last (Split (fst nv) CHR ''/''), snd nv)) parameters))"
proof -
  have suffix: "HasSuffix (Identifier s) ''/*''"
    by (simp add: assms(2) HasSuffix_def)
  have path: "take (length (Identifier s) - 2) (Identifier s) = path"
    by (simp add: assms(2))
  have st: "(if \<not> SSMClient state then state\<lparr>SSMClient := True\<rparr> else state)
              = state\<lparr>SSMClient := True\<rparr>"
    by simp
  have "Source_case X key s dst state w
          = (Inr (AList.update key (VStringMap (Parameters_range parameters [])) dst),
             state\<lparr>SSMClient := True\<rparr>, w')"
    using assms(1,3) suffix
    by (simp add: Source_case_def Let_def path st getParametersByPath_def del: split_paired_All)
  then have "RefreshMap_range X ((key, VSource s) # rest) dst state w
             = RefreshMap_range X rest
                 (AList.update key (VStringMap (Parameters_range parameters [])) dst)
                 (state\<lparr>SSMClient := True\<rparr>) w'"
    by simp
  then show ?thesis
    using map_of_Parameters_range[of parameters "[]"] distinct_Parameters_range[of "[]" parameters]
    by (intro exI[of _ "Parameters_range parameters []"]) simp
qed

theorem RefreshMap_ssm_path_witness:
  "Type \<lparr>Type = ''SSM'', Name = ''cfg'', Identifier = ''/app/*''\<rparr> = ''SSM''
   \<and> Identifier \<lparr>Type = ''SSM'', Name = ''cfg'', Identifier = ''/app/*''\<rparr> = ''/app'' @ ''/*''
   \<and> GetParametersByPath test_world ''/app'' 0
       = (Inr [(''/app/user'', ''u''), (''/app/db/pass'', ''p'')], 1)
   \<and> RefreshMap test_world
         [(''cfg'', VSource \<lparr>Type = ''SSM'', Name = ''cfg'', Identifier = ''/app/*''\<rparr>)]
         \<lparr>STSClient = False, SecretsManagerClient = False, KMSClient = False, SSMClient = False\<rparr> 0
       = (Inr [(''cfg'', VStringMap [(''user'', ''u''), (''pass'', ''p'')])],
          \<lparr>STSClient = False, SecretsManagerClient = False, KMSClient = False, SSMClient = True\<rparr>,
          1)"
proof -
  have h1: "Type \<lparr>Type = ''SSM'', Name = ''cfg'', Identifier = ''/app/*''\<rparr> = ''SSM''"
    by simp
  have h2: "Identifier \<lparr>Type = ''SSM'', Name = ''cfg'', Identifier = ''/app/*''\<rparr>
              = ''/app'' @ ''/*''"
    by simp
  have h3: "GetParametersByPath test_world ''/app'' 0
              = (Inr [(''/app/user'', ''u''), (''/app/db/pass'', ''p'')], 1)"
    by (simp add: test_world_def)
  have r: "RefreshMap test_world
         [(''cfg'', VSource \<lparr>Type = ''SSM'', Name = ''cfg'', Identifier = ''/app/*''\<rparr>)]
         \<lparr>STSClient = False, SecretsManagerClient = False, KMSClient = False, SSMClient = False\<rparr> 0
       = (Inr [(''cfg'', VStringMap [(''user'', ''u''), (''pass'', ''p'')])],
          \<lparr>STSClient = False, SecretsManagerClient = False, KMSClient = False, SSMClient = True\<rparr>,
          1)"
    by code_simp
  show ?thesis
    using h1 h2 h3 r RefreshMap_ssm_path[OF h1 h2 h3, of "''cfg''" "[]" "[]"]
    by simp
qed

subsection \<open>The retry loop\<close>













subsection \<open>The receiver during a refresh\<close>


subsection \<open>The Sources map\<close>






end
